theory Spec2Isabelle
  imports Main
begin

section \<open>Shared data of the soccer game\<close>

text \<open>
  Modelled from the spec: \<^verbatim>\<open>probConst.h\<close> is not part of the source tree. The goalie
  code names eight state constants; they are distinct codes stored in the status arrays.
\<close>

datatype status =
    ARRIVING | WAITING_TEAM | FORMING_TEAM | LATE
  | WAITING_START_1 | WAITING_START_2 | PLAYING_1 | PLAYING_2

text \<open>
  The two team quotas are macros of \<^verbatim>\<open>probConst.h\<close>; they are taken as parameters.
  They are C \<^verbatim>\<open>int\<close> constants and are compared with \<^verbatim>\<open>int\<close> counters.
\<close>

record prob_const =
  NUMTEAMPLAYERS :: int
  NUMTEAMGOALIES :: int

text \<open>
  Modelled from the spec: \<^verbatim>\<open>probDataStruct.h\<close> is not part of the source tree. The
  record holds the fields of \<^verbatim>\<open>sh->fSt\<close> that the goalie touches
  (\<^verbatim>\<open>st.goalieStat\<close>, \<^verbatim>\<open>goaliesArrived\<close>, \<^verbatim>\<open>goaliesFree\<close>, \<^verbatim>\<open>playersFree\<close>,
  \<^verbatim>\<open>teamId\<close>) and the symmetric player fields of section 3 of the specification.
  Status arrays are indexed by the entity id; \<^verbatim>\<open>main\<close> rejects an id that is not
  below \<^verbatim>\<open>NUMGOALIES\<close>, and the id is a natural number here. Counters are C \<^verbatim>\<open>int\<close>s; they count processes and
  teams and stay far from the limits of the type, so they are unbounded integers here.
\<close>

record full_stat =
  playerStat :: "nat \<Rightarrow> status"
  goalieStat :: "nat \<Rightarrow> status"
  playersArrived :: int
  goaliesArrived :: int
  playersFree :: int
  goaliesFree :: int
  teamId :: int

text \<open>The semaphores of the shared region, under the names the goalie uses for them.\<close>

datatype sem =
    mutex | playersWaitTeam | goaliesWaitTeam | playerRegistered
  | refereeWaitTeams | playersWaitReferee | playersWaitEnd | playing

section \<open>The goalie process as a machine\<close>

text \<open>
  Observable events of one goalie process, in program order: a completed
  \<^verbatim>\<open>semDown\<close>, a completed \<^verbatim>\<open>semUp\<close>, the post-increment \<^verbatim>\<open>ret = sh->fSt.teamId++\<close>
  with the value obtained, and the plain read \<^verbatim>\<open>ret = sh->fSt.teamId\<close> with the value
  obtained.
\<close>

datatype event = Down sem | Up sem | Claim int | ReadTeam int

text \<open>
  Program points of the goalie. Each point names the statement (or the straight-line
  block between two semaphore operations) that runs next. By source line:
  \<^item> \<^verbatim>\<open>arrive\<close>: \<open>Arrive_lock\<close> 140, \<open>Arrive_cs\<close> 146-147, \<open>Arrive_unlock\<close> 150,
    \<open>Arrive_sleep\<close> 155;
  \<^item> \<^verbatim>\<open>goalieConstituteTeam\<close>: \<open>CT_init\<close> 174, \<open>CT_lock\<close> 176, \<open>CT_cs\<close> 183-198 and
    221-225, \<open>CT_loop\<close> the test of line 200, \<open>CT_up_player\<close> 201, \<open>CT_down_reg\<close> 206,
    \<open>CT_incr\<close> the increment of line 200, \<open>CT_claim\<close> 213, \<open>CT_up_referee\<close> 215,
    \<open>CT_unlock\<close> 227, \<open>CT_recheck\<close> 234, \<open>CT_down_wait\<close> 235, \<open>CT_read\<close> 240,
    \<open>CT_up_reg\<close> 242, \<open>CT_return\<close> 248 with the test of line 117;
  \<^item> \<^verbatim>\<open>waitReferee\<close>: \<open>WR_lock\<close> 262, \<open>WR_cs\<close> 268-269, \<open>WR_unlock\<close> 271,
    \<open>WR_down\<close> 278, \<open>WR_up\<close> 283;
  \<^item> \<^verbatim>\<open>playUntilEnd\<close>: \<open>PE_lock\<close> 302, \<open>PE_cs\<close> 308-309, \<open>PE_unlock\<close> 312,
    \<open>PE_down\<close> 318;
  \<^item> \<^verbatim>\<open>main\<close>: \<open>Main_detach\<close> 123, \<open>Done\<close> 128, \<open>Failed\<close> any
    \<^verbatim>\<open>exit (EXIT_FAILURE)\<close> or the failure return of line 125.
  The start of \<^verbatim>\<open>main\<close> (arguments, attaching to the shared region) is not modelled.
  A block under the mutex is one step: no other process writes the shared data meanwhile.
\<close>

datatype pc =
    Arrive_lock | Arrive_cs | Arrive_unlock | Arrive_sleep
  | CT_init | CT_lock | CT_cs
  | CT_loop | CT_up_player | CT_down_reg | CT_incr | CT_claim | CT_up_referee
  | CT_unlock | CT_recheck | CT_down_wait | CT_read | CT_up_reg | CT_return
  | WR_lock | WR_cs | WR_unlock | WR_down | WR_up
  | PE_lock | PE_cs | PE_unlock | PE_down
  | Main_detach | Done | Failed

text \<open>
  A configuration: the goalie's program point and locals (\<^verbatim>\<open>ret\<close> of
  \<^verbatim>\<open>goalieConstituteTeam\<close>, \<^verbatim>\<open>team\<close> of \<^verbatim>\<open>main\<close>, the loop variable \<^verbatim>\<open>i\<close>), the shared
  region, the semaphore values and the log file written by \<^verbatim>\<open>saveState\<close>.
  \<open>holds\<close> and \<open>trace\<close> are history variables: \<open>holds\<close> is set by the goalie's own
  successful \<^verbatim>\<open>semDown\<close> on the mutex and cleared by its \<^verbatim>\<open>semUp\<close> on it.
\<close>

record conf =
  pc :: pc
  ret :: int
  team :: int
  loop_i :: int
  holds :: bool
  trace :: "event list"
  fSt :: full_stat
  sems :: "sem \<Rightarrow> nat"
  logf :: "full_stat list"

text \<open>
  Modelled from the spec: \<^verbatim>\<open>semaphore.h\<close> is not part of the source tree. Section 6
  gives the contract of a counting semaphore: a down on a zero semaphore suspends the
  caller (the configuration does not change), a signal is never lost. A primitive that
  fails returns \<^verbatim>\<open>-1\<close>; every call site then prints a message and calls
  \<^verbatim>\<open>exit (EXIT_FAILURE)\<close>, without releasing anything. The flag \<open>fails\<close> is the outcome
  of the system call.
\<close>

definition semDown :: "sem \<Rightarrow> pc \<Rightarrow> bool \<Rightarrow> conf \<Rightarrow> conf" where
  "semDown m nxt fails c =
     (if fails then c\<lparr>pc := Failed\<rparr>
      else if sems c m = 0 then c
      else c\<lparr>pc := nxt,
             holds := (if m = mutex then True else holds c),
             trace := trace c @ [Down m],
             sems := (sems c)(m := sems c m - 1)\<rparr>)"

definition semUp :: "sem \<Rightarrow> pc \<Rightarrow> bool \<Rightarrow> conf \<Rightarrow> conf" where
  "semUp m nxt fails c =
     (if fails then c\<lparr>pc := Failed\<rparr>
      else c\<lparr>pc := nxt,
             holds := (if m = mutex then False else holds c),
             trace := trace c @ [Up m],
             sems := (sems c)(m := sems c m + 1)\<rparr>)"

text \<open>
  Modelled from the spec: \<^verbatim>\<open>saveState\<close> (\<^verbatim>\<open>logging.h\<close>) appends a snapshot of the
  shared status data to the log file.
\<close>

definition saveState :: "conf \<Rightarrow> conf" where
  "saveState c = c\<lparr>logf := logf c @ [fSt c]\<rparr>"

subsection \<open>Statements on the shared region\<close>

definition set_goalieStat :: "nat \<Rightarrow> status \<Rightarrow> full_stat \<Rightarrow> full_stat" where
  "set_goalieStat n st s = s\<lparr>goalieStat := (goalieStat s)(n := st)\<rparr>"

text \<open>Lines 183-184: \<^verbatim>\<open>sh->fSt.goaliesFree++; sh->fSt.goaliesArrived++;\<close>\<close>

definition register_goalie :: "full_stat \<Rightarrow> full_stat" where
  "register_goalie s =
     (let s1 = s\<lparr>goaliesFree := goaliesFree s + 1\<rparr>
      in s1\<lparr>goaliesArrived := goaliesArrived s1 + 1\<rparr>)"

text \<open>Lines 197-198: the two \<^verbatim>\<open>-=\<close> statements of the forming branch.\<close>

definition reserve_team :: "prob_const \<Rightarrow> full_stat \<Rightarrow> full_stat" where
  "reserve_team k s =
     (let s1 = s\<lparr>playersFree := playersFree s - NUMTEAMPLAYERS k\<rparr>
      in s1\<lparr>goaliesFree := goaliesFree s1 - NUMTEAMGOALIES k\<rparr>)"

text \<open>Line 213: \<^verbatim>\<open>ret = sh->fSt.teamId++\<close>, the value obtained and the new region.\<close>

definition claim_teamId :: "full_stat \<Rightarrow> int \<times> full_stat" where
  "claim_teamId s = (teamId s, s\<lparr>teamId := teamId s + 1\<rparr>)"

subsection \<open>The critical-section blocks of the four operations\<close>

text \<open>\<^verbatim>\<open>arrive\<close>, lines 146-147.\<close>

definition arrive_cs :: "nat \<Rightarrow> conf \<Rightarrow> conf" where
  "arrive_cs n c = saveState (c\<lparr>fSt := set_goalieStat n ARRIVING (fSt c)\<rparr>)"

text \<open>
  \<^verbatim>\<open>goalieConstituteTeam\<close>, lines 183-198 and 221-225: everything between taking the
  mutex and the first semaphore operation that follows. The forming branch goes on to
  the loop of line 200 with the mutex still held; the other two branches go to the
  \<^verbatim>\<open>semUp\<close> of line 227.
\<close>

definition goalieConstituteTeam_cs :: "prob_const \<Rightarrow> nat \<Rightarrow> conf \<Rightarrow> conf" where
  "goalieConstituteTeam_cs k n c =
     (let c1 = c\<lparr>fSt := register_goalie (fSt c)\<rparr>
      in if goaliesArrived (fSt c1) \<le> 2 then
           if playersFree (fSt c1) < NUMTEAMPLAYERS k \<or> goaliesFree (fSt c1) < NUMTEAMGOALIES k
           then (saveState (c1\<lparr>fSt := set_goalieStat n WAITING_TEAM (fSt c1)\<rparr>))\<lparr>pc := CT_unlock\<rparr>
           else
             (let c2 = saveState (c1\<lparr>fSt := set_goalieStat n FORMING_TEAM (fSt c1)\<rparr>)
              in c2\<lparr>fSt := reserve_team k (fSt c2), loop_i := 0, pc := CT_loop\<rparr>)
         else
           (saveState (c1\<lparr>ret := 0, fSt := set_goalieStat n LATE (fSt c1)\<rparr>))\<lparr>pc := CT_unlock\<rparr>)"

text \<open>\<^verbatim>\<open>waitReferee\<close>, lines 268-269.\<close>

definition waitReferee_cs :: "nat \<Rightarrow> conf \<Rightarrow> conf" where
  "waitReferee_cs n c =
     saveState (c\<lparr>fSt := set_goalieStat n
        (if team c = 1 then WAITING_START_1 else WAITING_START_2) (fSt c)\<rparr>)"

text \<open>\<^verbatim>\<open>playUntilEnd\<close>, lines 308-309.\<close>

definition playUntilEnd_cs :: "nat \<Rightarrow> conf \<Rightarrow> conf" where
  "playUntilEnd_cs n c =
     saveState (c\<lparr>fSt := set_goalieStat n
        (if team c = 1 then PLAYING_1 else PLAYING_2) (fSt c)\<rparr>)"

subsection \<open>One step of the goalie\<close>

text \<open>
  \<open>gstep k n fails c\<close> runs the statement at the program point of \<open>c\<close> for goalie \<open>n\<close>.
  \<open>fails\<close> tells whether the system call of that statement (a semaphore primitive, or
  \<^verbatim>\<open>shmemDettach\<close> at the end of \<^verbatim>\<open>main\<close>) returns \<^verbatim>\<open>-1\<close>; statements without a
  system call ignore it. A suspended or finished goalie leaves the configuration as it is.
\<close>

definition gstep :: "prob_const \<Rightarrow> nat \<Rightarrow> bool \<Rightarrow> conf \<Rightarrow> conf" where
  "gstep k n fails c =
     (case pc c of
        Arrive_lock \<Rightarrow> semDown mutex Arrive_cs fails c
      | Arrive_cs \<Rightarrow> (arrive_cs n c)\<lparr>pc := Arrive_unlock\<rparr>
      | Arrive_unlock \<Rightarrow> semUp mutex Arrive_sleep fails c
      | Arrive_sleep \<Rightarrow> c\<lparr>pc := CT_init\<rparr>
      | CT_init \<Rightarrow> c\<lparr>ret := 0, pc := CT_lock\<rparr>
      | CT_lock \<Rightarrow> semDown mutex CT_cs fails c
      | CT_cs \<Rightarrow> goalieConstituteTeam_cs k n c
      | CT_loop \<Rightarrow>
          (if loop_i c < NUMTEAMPLAYERS k then c\<lparr>pc := CT_up_player\<rparr> else c\<lparr>pc := CT_claim\<rparr>)
      | CT_up_player \<Rightarrow> semUp playersWaitTeam CT_down_reg fails c
      | CT_down_reg \<Rightarrow> semDown playerRegistered CT_incr fails c
      | CT_incr \<Rightarrow> c\<lparr>loop_i := loop_i c + 1, pc := CT_loop\<rparr>
      | CT_claim \<Rightarrow>
          (case claim_teamId (fSt c) of
             (t, s') \<Rightarrow> c\<lparr>ret := t, fSt := s', trace := trace c @ [Claim t], pc := CT_up_referee\<rparr>)
      | CT_up_referee \<Rightarrow> semUp refereeWaitTeams CT_unlock fails c
      | CT_unlock \<Rightarrow> semUp mutex CT_recheck fails c
      | CT_recheck \<Rightarrow>
          (if goalieStat (fSt c) n = WAITING_TEAM then c\<lparr>pc := CT_down_wait\<rparr>
           else c\<lparr>pc := CT_return\<rparr>)
      | CT_down_wait \<Rightarrow> semDown goaliesWaitTeam CT_read fails c
      | CT_read \<Rightarrow>
          c\<lparr>ret := teamId (fSt c), trace := trace c @ [ReadTeam (teamId (fSt c))], pc := CT_up_reg\<rparr>
      | CT_up_reg \<Rightarrow> semUp playerRegistered CT_return fails c
      | CT_return \<Rightarrow>
          (let c1 = c\<lparr>team := ret c\<rparr>
           in if team c1 \<noteq> 0 then c1\<lparr>pc := WR_lock\<rparr> else c1\<lparr>pc := Main_detach\<rparr>)
      | WR_lock \<Rightarrow> semDown mutex WR_cs fails c
      | WR_cs \<Rightarrow> (waitReferee_cs n c)\<lparr>pc := WR_unlock\<rparr>
      | WR_unlock \<Rightarrow> semUp mutex WR_down fails c
      | WR_down \<Rightarrow> semDown playersWaitReferee WR_up fails c
      | WR_up \<Rightarrow> semUp playing PE_lock fails c
      | PE_lock \<Rightarrow> semDown mutex PE_cs fails c
      | PE_cs \<Rightarrow> (playUntilEnd_cs n c)\<lparr>pc := PE_unlock\<rparr>
      | PE_unlock \<Rightarrow> semUp mutex PE_down fails c
      | PE_down \<Rightarrow> semDown playersWaitEnd Main_detach fails c
      | Main_detach \<Rightarrow> (if fails then c\<lparr>pc := Failed\<rparr> else c\<lparr>pc := Done\<rparr>)
      | Done \<Rightarrow> c
      | Failed \<Rightarrow> c)"

subsection \<open>The other processes\<close>

text \<open>
  Players, the referee and the other goalies run between the steps of this goalie. A step
  of theirs may leave any values in the semaphores. It may rewrite the shared region,
  under two rules of section 3 of the specification: shared data is written under the
  mutex only, so nothing changes while this goalie holds it, and a status entry is
  written by its owner only, so \<open>goalieStat n\<close> stays as this goalie left it.
\<close>

definition env_step :: "nat \<Rightarrow> full_stat \<Rightarrow> (sem \<Rightarrow> nat) \<Rightarrow> conf \<Rightarrow> conf" where
  "env_step n s v c =
     c\<lparr>sems := v,
       fSt := (if holds c then fSt c else set_goalieStat n (goalieStat (fSt c) n) s)\<rparr>"

datatype sched_item = Go bool | Env full_stat "sem \<Rightarrow> nat"

fun sstep :: "prob_const \<Rightarrow> nat \<Rightarrow> conf \<Rightarrow> sched_item \<Rightarrow> conf" where
  "sstep k n c (Go fails) = gstep k n fails c"
| "sstep k n c (Env s v) = env_step n s v c"

text \<open>A run: the goalie's steps interleaved with steps of the other processes.\<close>

definition exec :: "prob_const \<Rightarrow> nat \<Rightarrow> sched_item list \<Rightarrow> conf \<Rightarrow> conf" where
  "exec k n sched c = foldl (sstep k n) c sched"

text \<open>The goalie is suspended: its system call does not fail, yet it cannot move.\<close>

definition suspended :: "prob_const \<Rightarrow> nat \<Rightarrow> conf \<Rightarrow> bool" where
  "suspended k n c = (pc c \<noteq> Done \<and> pc c \<noteq> Failed \<and> gstep k n False c = c)"

text \<open>Program points between a \<^verbatim>\<open>semDown\<close> and the \<^verbatim>\<open>semUp\<close> on the mutex.\<close>

fun in_cs :: "pc \<Rightarrow> bool" where
  "in_cs Arrive_cs = True"
| "in_cs Arrive_unlock = True"
| "in_cs CT_cs = True"
| "in_cs CT_loop = True"
| "in_cs CT_up_player = True"
| "in_cs CT_down_reg = True"
| "in_cs CT_incr = True"
| "in_cs CT_claim = True"
| "in_cs CT_up_referee = True"
| "in_cs CT_unlock = True"
| "in_cs WR_cs = True"
| "in_cs WR_unlock = True"
| "in_cs PE_cs = True"
| "in_cs PE_unlock = True"
| "in_cs _ = False"


section \<open>Serial view of team formation\<close>

text \<open>
  The mutex-protected region of \<^verbatim>\<open>goalieConstituteTeam\<close> (lines 183-225) as one function
  on the shared region: the goalie that forms the team keeps the mutex through the loop of
  line 200 and the post-increment of line 213, so the whole region runs without
  interference. The result is the team id claimed, if any, and the region left behind.
\<close>

definition goalieConstituteTeam_region :: "prob_const \<Rightarrow> nat \<Rightarrow> full_stat \<Rightarrow> int option \<times> full_stat" where
  "goalieConstituteTeam_region k n s =
     (let s1 = register_goalie s
      in if goaliesArrived s1 \<le> 2 then
           if playersFree s1 < NUMTEAMPLAYERS k \<or> goaliesFree s1 < NUMTEAMGOALIES k
           then (None, set_goalieStat n WAITING_TEAM s1)
           else (case claim_teamId (reserve_team k (set_goalieStat n FORMING_TEAM s1)) of
                   (t, s2) \<Rightarrow> (Some t, s2))
         else (None, set_goalieStat n LATE s1))"

text \<open>
  Goalies \<open>ns\<close> pass through the region one after the other, in the order in which they
  get the mutex. The result lists the team ids claimed, in order, with the final region.
\<close>

fun formation :: "prob_const \<Rightarrow> nat list \<Rightarrow> full_stat \<Rightarrow> int list \<times> full_stat" where
  "formation k [] s = ([], s)"
| "formation k (n # ns) s =
     (case goalieConstituteTeam_region k n s of
        (r, s') \<Rightarrow>
          (case formation k ns s' of
             (ts, sf) \<Rightarrow> ((case r of None \<Rightarrow> ts | Some t \<Rightarrow> t # ts), sf)))"

section \<open>Invariants of a run\<close>

text \<open>The history variable \<open>holds\<close> agrees with the program point, up to a fatal exit.\<close>

definition cs_inv :: "conf \<Rightarrow> bool" where
  "cs_inv c = (pc c = Failed \<or> holds c = in_cs (pc c))"

text \<open>\<open>m\<close> rounds of the loop of line 200: release one player, wait for its acknowledgment.\<close>

definition handshakes :: "nat \<Rightarrow> event list" where
  "handshakes m = concat (replicate m [Up playersWaitTeam, Down playerRegistered])"

text \<open>
  What the goalie has done since it entered \<^verbatim>\<open>goalieConstituteTeam\<close> with trace \<open>b\<close>,
  at each program point of that function.
\<close>

definition ct_inv :: "prob_const \<Rightarrow> nat \<Rightarrow> event list \<Rightarrow> conf \<Rightarrow> bool" where
  "ct_inv k n b c =
     (let st = goalieStat (fSt c) n; i = loop_i c; q = NUMTEAMPLAYERS k in
      case pc c of
        Arrive_lock \<Rightarrow> False
      | Arrive_cs \<Rightarrow> False
      | Arrive_unlock \<Rightarrow> False
      | Arrive_sleep \<Rightarrow> False
      | CT_init \<Rightarrow> trace c = b
      | CT_lock \<Rightarrow> trace c = b \<and> ret c = 0
      | CT_cs \<Rightarrow> trace c = b @ [Down mutex] \<and> ret c = 0
      | CT_loop \<Rightarrow> st = FORMING_TEAM \<and> 0 \<le> i \<and> (i \<le> q \<or> i = 0) \<and>
                    trace c = b @ Down mutex # handshakes (nat i)
      | CT_up_player \<Rightarrow> st = FORMING_TEAM \<and> 0 \<le> i \<and> i < q \<and>
                    trace c = b @ Down mutex # handshakes (nat i)
      | CT_down_reg \<Rightarrow> st = FORMING_TEAM \<and> 0 \<le> i \<and> i < q \<and>
                    trace c = b @ Down mutex # handshakes (nat i) @ [Up playersWaitTeam]
      | CT_incr \<Rightarrow> st = FORMING_TEAM \<and> 0 \<le> i \<and> i < q \<and>
                    trace c = b @ Down mutex # handshakes (nat i) @
                                [Up playersWaitTeam, Down playerRegistered]
      | CT_claim \<Rightarrow> st = FORMING_TEAM \<and> trace c = b @ Down mutex # handshakes (nat q)
      | CT_up_referee \<Rightarrow> st = FORMING_TEAM \<and>
                    trace c = b @ Down mutex # handshakes (nat q) @ [Claim (ret c)]
      | CT_unlock \<Rightarrow>
          (st = LATE \<and> ret c = 0 \<and> trace c = b @ [Down mutex]) \<or>
          (st = WAITING_TEAM \<and> ret c = 0 \<and> trace c = b @ [Down mutex]) \<or>
          (st = FORMING_TEAM \<and>
             trace c = b @ Down mutex # handshakes (nat q) @ [Claim (ret c), Up refereeWaitTeams])
      | CT_recheck \<Rightarrow>
          (st = LATE \<and> ret c = 0 \<and> trace c = b @ [Down mutex, Up mutex]) \<or>
          (st = WAITING_TEAM \<and> ret c = 0 \<and> trace c = b @ [Down mutex, Up mutex]) \<or>
          (st = FORMING_TEAM \<and>
             trace c = b @ Down mutex # handshakes (nat q) @
                         [Claim (ret c), Up refereeWaitTeams, Up mutex])
      | CT_down_wait \<Rightarrow> st = WAITING_TEAM \<and> trace c = b @ [Down mutex, Up mutex]
      | CT_read \<Rightarrow> st = WAITING_TEAM \<and>
          trace c = b @ [Down mutex, Up mutex, Down goaliesWaitTeam]
      | CT_up_reg \<Rightarrow> st = WAITING_TEAM \<and>
          trace c = b @ [Down mutex, Up mutex, Down goaliesWaitTeam, ReadTeam (ret c)]
      | CT_return \<Rightarrow>
          (st = LATE \<and> ret c = 0 \<and> trace c = b @ [Down mutex, Up mutex]) \<or>
          (st = WAITING_TEAM \<and>
             trace c = b @ [Down mutex, Up mutex, Down goaliesWaitTeam, ReadTeam (ret c),
                            Up playerRegistered]) \<or>
          (st = FORMING_TEAM \<and>
             trace c = b @ Down mutex # handshakes (nat q) @
                         [Claim (ret c), Up refereeWaitTeams, Up mutex])
      | _ \<Rightarrow> True)"




text \<open>Both free counters are non-negative.\<close>

definition nonneg :: "full_stat \<Rightarrow> bool" where
  "nonneg s = (0 \<le> goaliesFree s \<and> 0 \<le> playersFree s)"

fun nonneg_item :: "sched_item \<Rightarrow> bool" where
  "nonneg_item (Env s v) = nonneg s"
| "nonneg_item (Go fails) = True"

text \<open>
  The life of a goalie that meets \<open>goaliesArrived \<ge> 2\<close> whenever it looks: the events and
  the statuses it has logged at each program point it can be at.
\<close>

definition late_trace :: "event list" where
  "late_trace = [Down mutex, Up mutex, Down mutex, Up mutex]"

fun late_item :: "sched_item \<Rightarrow> bool" where
  "late_item (Env s v) = (2 \<le> goaliesArrived s)"
| "late_item (Go fails) = True"

definition late_inv :: "nat \<Rightarrow> conf \<Rightarrow> bool" where
  "late_inv n c =
     (2 \<le> goaliesArrived (fSt c) \<and>
      (let st = goalieStat (fSt c) n; lg = map (\<lambda>s. goalieStat s n) (logf c) in
       case pc c of
         Arrive_lock \<Rightarrow> trace c = [] \<and> lg = []
       | Arrive_cs \<Rightarrow> trace c = [Down mutex] \<and> lg = []
       | Arrive_unlock \<Rightarrow> st = ARRIVING \<and> trace c = [Down mutex] \<and> lg = [ARRIVING]
       | Arrive_sleep \<Rightarrow> st = ARRIVING \<and> trace c = [Down mutex, Up mutex] \<and> lg = [ARRIVING]
       | CT_init \<Rightarrow> st = ARRIVING \<and> trace c = [Down mutex, Up mutex] \<and> lg = [ARRIVING]
       | CT_lock \<Rightarrow> st = ARRIVING \<and> trace c = [Down mutex, Up mutex] \<and> lg = [ARRIVING]
       | CT_cs \<Rightarrow> st = ARRIVING \<and> trace c = [Down mutex, Up mutex, Down mutex] \<and> lg = [ARRIVING]
       | CT_unlock \<Rightarrow> st = LATE \<and> ret c = 0 \<and>
           trace c = [Down mutex, Up mutex, Down mutex] \<and> lg = [ARRIVING, LATE]
       | CT_recheck \<Rightarrow> st = LATE \<and> ret c = 0 \<and> trace c = late_trace \<and> lg = [ARRIVING, LATE]
       | CT_return \<Rightarrow> st = LATE \<and> ret c = 0 \<and> trace c = late_trace \<and> lg = [ARRIVING, LATE]
       | Main_detach \<Rightarrow> st = LATE \<and> team c = 0 \<and> trace c = late_trace \<and> lg = [ARRIVING, LATE]
       | Done \<Rightarrow> st = LATE \<and> team c = 0 \<and> trace c = late_trace \<and> lg = [ARRIVING, LATE]
       | Failed \<Rightarrow> take (length (trace c)) late_trace = trace c \<and>
                   take (length lg) [ARRIVING, LATE] = lg
       | _ \<Rightarrow> False))"

text \<open>
  The shared region during a passage through the mutex-protected region of
  \<^verbatim>\<open>goalieConstituteTeam\<close> that was entered with the region \<open>s0\<close>.
\<close>

definition region_inv :: "prob_const \<Rightarrow> nat \<Rightarrow> full_stat \<Rightarrow> conf \<Rightarrow> bool" where
  "region_inv k n s0 c =
     (let s1 = register_goalie s0;
          forming = (goaliesArrived s1 \<le> 2 \<and>
                     \<not> (playersFree s1 < NUMTEAMPLAYERS k \<or> goaliesFree s1 < NUMTEAMGOALIES k));
          reserved = reserve_team k (set_goalieStat n FORMING_TEAM s1);
          r = goalieConstituteTeam_region k n s0
      in case pc c of
        Arrive_lock \<Rightarrow> False
      | Arrive_cs \<Rightarrow> False
      | Arrive_unlock \<Rightarrow> False
      | Arrive_sleep \<Rightarrow> False
      | CT_init \<Rightarrow> False
      | CT_lock \<Rightarrow> False
      | CT_cs \<Rightarrow> holds c \<and> fSt c = s0
      | CT_loop \<Rightarrow> holds c \<and> forming \<and> fSt c = reserved
      | CT_up_player \<Rightarrow> holds c \<and> forming \<and> fSt c = reserved
      | CT_down_reg \<Rightarrow> holds c \<and> forming \<and> fSt c = reserved
      | CT_incr \<Rightarrow> holds c \<and> forming \<and> fSt c = reserved
      | CT_claim \<Rightarrow> holds c \<and> forming \<and> fSt c = reserved
      | CT_up_referee \<Rightarrow> holds c \<and> fSt c = snd r \<and> fst r = Some (ret c)
      | CT_unlock \<Rightarrow> holds c \<and> fSt c = snd r \<and> (fst r = None \<or> fst r = Some (ret c))
      | _ \<Rightarrow> True)"



section \<open>Sample data\<close>

text \<open>
  Quotas of two players and one goalie per team, and a region where nobody has arrived.
  The team counter starts at 1: the comment of \<^verbatim>\<open>goalieConstituteTeam\<close> gives the
  return values as 0 for late goalies, 1 for team 1 and 2 for team 2.
\<close>

definition small_game :: prob_const where
  "small_game = \<lparr>NUMTEAMPLAYERS = 2, NUMTEAMGOALIES = 1\<rparr>"

definition empty_region :: full_stat where
  "empty_region =
     \<lparr>playerStat = (\<lambda>_. ARRIVING), goalieStat = (\<lambda>_. ARRIVING),
      playersArrived = 0, goaliesArrived = 0, playersFree = 0, goaliesFree = 0, teamId = 1\<rparr>"

definition all_open :: "sem \<Rightarrow> nat" where
  "all_open = (\<lambda>_. 1)"

definition only_mutex :: "sem \<Rightarrow> nat" where
  "only_mutex = (\<lambda>_. 0)(mutex := 1)"

definition start_conf :: "pc \<Rightarrow> full_stat \<Rightarrow> (sem \<Rightarrow> nat) \<Rightarrow> conf" where
  "start_conf p s v =
     \<lparr>pc = p, ret = 0, team = 0, loop_i = 0, holds = False, trace = [],
      fSt = s, sems = v, logf = []\<rparr>"

definition big_goalie_quota :: prob_const where
  "big_goalie_quota = \<lparr>NUMTEAMPLAYERS = 2, NUMTEAMGOALIES = 2\<rparr>"

definition two_players_free :: full_stat where
  "two_players_free = empty_region\<lparr>playersFree := 2\<rparr>"

definition four_players_free :: full_stat where
  "four_players_free = empty_region\<lparr>playersFree := 4\<rparr>"

definition two_goalies_arrived :: full_stat where
  "two_goalies_arrived = empty_region\<lparr>goaliesArrived := 2, goaliesFree := 2\<rparr>"

text \<open>Six steps without a failure take a goalie from the start of \<^verbatim>\<open>arrive\<close> to line 183.\<close>

definition enter_sched :: "sched_item list" where
  "enter_sched = [Go False, Go False, Go False, Go False, Go False, Go False]"

text \<open>Two steps take a goalie from the start of \<^verbatim>\<open>goalieConstituteTeam\<close> to line 183.\<close>

definition ct_enter_sched :: "sched_item list" where
  "ct_enter_sched = [Go False, Go False]"

definition third_goalie_check :: "prob_const \<Rightarrow> conf" where
  "third_goalie_check k =
     exec k 0 ct_enter_sched (start_conf CT_init two_goalies_arrived only_mutex)"

text \<open>Nine steps: goalie 0 arrives, finds both quotas met and releases the first player.\<close>

definition forming_sched :: "sched_item list" where
  "forming_sched =
     [Go False, Go False, Go False, Go False, Go False, Go False, Go False, Go False, Go False]"

definition forming_run :: conf where
  "forming_run =
     exec small_game 0 forming_sched (start_conf Arrive_lock two_players_free only_mutex)"

text \<open>
  \<^verbatim>\<open>goalieConstituteTeam\<close> of a forming goalie, with the two players acknowledging in
  time.
\<close>

definition ct_forming_sched :: "sched_item list" where
  "ct_forming_sched =
     [Go False, Go False, Go False, Go False, Go False, Env empty_region all_open,
      Go False, Go False, Go False, Go False, Env empty_region all_open,
      Go False, Go False, Go False, Go False, Go False, Go False, Go False]"

text \<open>
  \<^verbatim>\<open>goalieConstituteTeam\<close> of a goalie that has to wait; it is woken after another
  process has left \<open>t\<close> in the team counter.
\<close>

definition ct_waiting_sched :: "int \<Rightarrow> sched_item list" where
  "ct_waiting_sched t =
     [Go False, Go False, Go False, Go False, Go False,
      Env (empty_region\<lparr>goaliesArrived := 1, goaliesFree := 0, teamId := t\<rparr>) all_open,
      Go False, Go False, Go False]"

definition waiting_run :: "int \<Rightarrow> conf" where
  "waiting_run t =
     exec small_game 0 (ct_waiting_sched t) (start_conf CT_init empty_region only_mutex)"

text \<open>The whole life of a goalie that is alone and never fails: eleven steps.\<close>

definition late_sched :: "sched_item list" where
  "late_sched =
     [Go False, Go False, Go False, Go False, Go False, Go False, Go False, Go False, Go False,
      Go False, Go False]"






text \<open>
  A cooperative schedule of \<open>m\<close> rounds: before each step of the goalie the other processes
  leave every semaphore at 1 and the region at \<open>s\<close>, where the rules of \<open>env_step\<close> allow.
\<close>

definition coop_sched :: "full_stat \<Rightarrow> nat \<Rightarrow> sched_item list" where
  "coop_sched s m = concat (replicate m [Env s all_open, Go False])"

definition in_loop :: "prob_const \<Rightarrow> nat \<Rightarrow> conf \<Rightarrow> bool" where
  "in_loop k n c =
     (pc c = CT_loop \<and> holds c \<and> goalieStat (fSt c) n = FORMING_TEAM \<and>
      0 \<le> loop_i c \<and> loop_i c \<le> NUMTEAMPLAYERS k)"

section \<open>Basic facts\<close>

lemmas step_defs = gstep_def semDown_def semUp_def saveState_def arrive_cs_def goalieConstituteTeam_cs_def
  waitReferee_cs_def playUntilEnd_cs_def claim_teamId_def Let_def

lemmas stat_defs = set_goalieStat_def reserve_team_def register_goalie_def

lemmas run_defs = exec_def env_step_def step_defs stat_defs

lemmas sample_defs = small_game_def empty_region_def all_open_def only_mutex_def start_conf_def
  big_goalie_quota_def two_players_free_def four_players_free_def two_goalies_arrived_def
  enter_sched_def ct_enter_sched_def third_goalie_check_def forming_sched_def forming_run_def ct_forming_sched_def
  ct_waiting_sched_def waiting_run_def late_sched_def


lemma exec_Nil: "exec k n [] c = c"
  by (simp add: exec_def)

lemma exec_Cons: "exec k n (it # sched) c = exec k n sched (sstep k n c it)"
  by (simp add: exec_def)

lemma exec_append: "exec k n (a @ b) c = exec k n b (exec k n a c)"
  by (simp add: exec_def)

text \<open>A property kept by every step of a schedule holds at the end of the run.\<close>

lemma exec_invariant:
  assumes "P c" and "\<And>d it. P d \<Longrightarrow> it \<in> set sched \<Longrightarrow> P (sstep k n d it)"
  shows "P (exec k n sched c)"
  using assms unfolding exec_def
proof (induction sched arbitrary: c)
  case Nil
  then show ?case by simp
next
  case (Cons a sched)
  have "P (sstep k n c a)" using Cons.prems by simp
  then show ?case using Cons.IH Cons.prems(2) by simp
qed

subsection \<open>Holding the mutex\<close>

lemma cs_inv_gstep: "cs_inv c \<Longrightarrow> cs_inv (gstep k n f c)"
  by (cases "pc c") (auto simp: cs_inv_def step_defs)

lemma cs_inv_env: "cs_inv c \<Longrightarrow> cs_inv (env_step n s v c)"
  by (simp add: cs_inv_def env_step_def)

lemma cs_inv_sstep: "cs_inv c \<Longrightarrow> cs_inv (sstep k n c it)"
  by (cases it) (simp_all add: cs_inv_gstep cs_inv_env)

lemma cs_inv_exec: "cs_inv c \<Longrightarrow> cs_inv (exec k n sched c)"
  by (rule exec_invariant) (simp_all add: cs_inv_sstep)

lemma cs_inv_start: "pc c0 = Arrive_lock \<Longrightarrow> \<not> holds c0 \<Longrightarrow> cs_inv c0"
  by (simp add: cs_inv_def)

lemma cs_inv_ct_start: "pc c0 = CT_init \<Longrightarrow> \<not> holds c0 \<Longrightarrow> cs_inv c0"
  by (simp add: cs_inv_def)

lemma suspended_pc:
  "suspended k n c \<Longrightarrow> pc (gstep k n False c) = pc c \<and> pc c \<noteq> Done \<and> pc c \<noteq> Failed"
  by (simp add: suspended_def)

text \<open>A goalie can only be suspended in a \<^verbatim>\<open>semDown\<close>, on a semaphore that is zero.\<close>

lemma suspended_cases:
  "suspended k n c \<Longrightarrow>
     (pc c \<in> {Arrive_lock, CT_lock, WR_lock, PE_lock} \<and> sems c mutex = 0) \<or>
     (pc c = CT_down_reg \<and> sems c playerRegistered = 0) \<or>
     (pc c = CT_down_wait \<and> sems c goaliesWaitTeam = 0) \<or>
     (pc c = WR_down \<and> sems c playersWaitReferee = 0) \<or>
     (pc c = PE_down \<and> sems c playersWaitEnd = 0)"
  by (drule suspended_pc, cases "pc c") (auto simp: step_defs split: if_splits)

subsection \<open>The events of team constitution\<close>

lemma handshakes_0: "handshakes 0 = []"
  by (simp add: handshakes_def)

lemma handshakes_Suc:
  "handshakes (Suc m) = handshakes m @ [Up playersWaitTeam, Down playerRegistered]"
  unfolding handshakes_def by (induction m) simp_all

lemma nat_succ: "0 \<le> i \<Longrightarrow> nat (i + 1) = Suc (nat i)"
  by simp

lemma ct_inv_gstep: "ct_inv k n b c \<Longrightarrow> ct_inv k n b (gstep k n f c)"
  apply (cases "pc c")
  apply (simp_all add: ct_inv_def step_defs stat_defs handshakes_0)
  apply (auto simp: nat_succ handshakes_Suc)
  done

lemma ct_inv_env: "ct_inv k n b c \<Longrightarrow> ct_inv k n b (env_step n s v c)"
  by (cases "pc c") (simp_all add: ct_inv_def env_step_def set_goalieStat_def Let_def)

lemma ct_inv_sstep: "ct_inv k n b c \<Longrightarrow> ct_inv k n b (sstep k n c it)"
  by (cases it) (simp_all add: ct_inv_gstep ct_inv_env)

lemma ct_inv_exec: "ct_inv k n b c \<Longrightarrow> ct_inv k n b (exec k n sched c)"
  by (rule exec_invariant) (simp_all add: ct_inv_sstep)

lemma ct_inv_start: "pc c0 = CT_init \<Longrightarrow> ct_inv k n (trace c0) c0"
  by (simp add: ct_inv_def)

subsection \<open>Positive team ids\<close>





subsection \<open>The value returned\<close>













subsection \<open>Non-negative free counters\<close>

lemma nonneg_gstep: "nonneg (fSt c) \<Longrightarrow> nonneg (fSt (gstep k n f c))"
  by (cases "pc c") (auto simp: nonneg_def step_defs stat_defs)

lemma nonneg_sstep:
  assumes "nonneg (fSt c)" and "nonneg_item it"
  shows "nonneg (fSt (sstep k n c it))"
proof (cases it)
  case (Go f)
  then show ?thesis using assms(1) by (simp add: nonneg_gstep)
next
  case (Env s v)
  with assms show ?thesis by (simp add: nonneg_def env_step_def set_goalieStat_def)
qed

lemma nonneg_exec:
  "nonneg (fSt c) \<Longrightarrow> list_all nonneg_item sched \<Longrightarrow> nonneg (fSt (exec k n sched c))"
  by (rule exec_invariant [where P = "\<lambda>c. nonneg (fSt c)"])
     (simp_all add: nonneg_sstep list_all_iff)

subsection \<open>The late goalie\<close>

lemma late_inv_gstep: "late_inv n c \<Longrightarrow> late_inv n (gstep k n f c)"
  by (cases "pc c") (simp_all add: late_inv_def step_defs stat_defs late_trace_def)

lemma late_inv_env: "late_inv n c \<Longrightarrow> 2 \<le> goaliesArrived s \<Longrightarrow> late_inv n (env_step n s v c)"
  by (cases "pc c") (simp_all add: late_inv_def env_step_def set_goalieStat_def Let_def)

lemma late_inv_sstep: "late_inv n c \<Longrightarrow> late_item it \<Longrightarrow> late_inv n (sstep k n c it)"
  by (cases it) (simp_all add: late_inv_gstep late_inv_env)

lemma late_inv_exec: "late_inv n c \<Longrightarrow> list_all late_item sched \<Longrightarrow> late_inv n (exec k n sched c)"
  by (rule exec_invariant) (simp_all add: late_inv_sstep list_all_iff)

lemma late_inv_start:
  "pc c0 = Arrive_lock \<Longrightarrow> trace c0 = [] \<Longrightarrow> logf c0 = [] \<Longrightarrow> 2 \<le> goaliesArrived (fSt c0)
     \<Longrightarrow> late_inv n c0"
  by (simp add: late_inv_def)

subsection \<open>The serial view agrees with the machine\<close>

lemma region_inv_gstep: "region_inv k n s0 c \<Longrightarrow> region_inv k n s0 (gstep k n f c)"
  by (cases "pc c") (simp_all add: region_inv_def step_defs goalieConstituteTeam_region_def)

lemma region_inv_env: "region_inv k n s0 c \<Longrightarrow> region_inv k n s0 (env_step n s v c)"
  by (cases "pc c") (simp_all add: region_inv_def env_step_def Let_def)

lemma region_inv_sstep: "region_inv k n s0 c \<Longrightarrow> region_inv k n s0 (sstep k n c it)"
  by (cases it) (simp_all add: region_inv_gstep region_inv_env)

lemma region_inv_exec: "region_inv k n s0 c \<Longrightarrow> region_inv k n s0 (exec k n sched c)"
  by (rule exec_invariant) (simp_all add: region_inv_sstep)

lemma region_inv_start: "pc c0 = CT_cs \<Longrightarrow> holds c0 \<Longrightarrow> region_inv k n (fSt c0) c0"
  by (simp add: region_inv_def)

text \<open>
  Whatever the other processes do, a goalie that entered the region of
  \<^verbatim>\<open>goalieConstituteTeam\<close> with the shared data \<open>fSt c0\<close> arrives at the \<^verbatim>\<open>semUp\<close> of
  line 227 with the shared data that \<open>goalieConstituteTeam_region\<close> computes, and with the claimed id
  in \<^verbatim>\<open>ret\<close>.
\<close>

lemma region_refines:
  assumes "pc c0 = CT_cs" and "holds c0" and "pc (exec k n sched c0) = CT_unlock"
  shows "fSt (exec k n sched c0) = snd (goalieConstituteTeam_region k n (fSt c0)) \<and>
         (fst (goalieConstituteTeam_region k n (fSt c0)) = None \<or>
          fst (goalieConstituteTeam_region k n (fSt c0)) = Some (ret (exec k n sched c0)))"
proof -
  have "region_inv k n (fSt c0) (exec k n sched c0)"
    using assms(1,2) by (intro region_inv_exec region_inv_start)
  then show ?thesis using assms(3) by (simp add: region_inv_def Let_def)
qed

lemma region_fst_snd:
  "(fst (goalieConstituteTeam_region k n s) = None \<and> teamId (snd (goalieConstituteTeam_region k n s)) = teamId s) \<or>
   (fst (goalieConstituteTeam_region k n s) = Some (teamId s) \<and>
    teamId (snd (goalieConstituteTeam_region k n s)) = teamId s + 1)"
  by (simp add: goalieConstituteTeam_region_def stat_defs claim_teamId_def Let_def)

lemma region_counters:
  "goaliesFree (snd (goalieConstituteTeam_region k n s)) =
     goaliesFree s + 1 - (if fst (goalieConstituteTeam_region k n s) = None then 0 else NUMTEAMGOALIES k) \<and>
   playersFree (snd (goalieConstituteTeam_region k n s)) =
     playersFree s - (if fst (goalieConstituteTeam_region k n s) = None then 0 else NUMTEAMPLAYERS k) \<and>
   goaliesArrived (snd (goalieConstituteTeam_region k n s)) = goaliesArrived s + 1"
  by (simp add: goalieConstituteTeam_region_def stat_defs claim_teamId_def Let_def)

lemma region_nonneg: "nonneg s \<Longrightarrow> nonneg (snd (goalieConstituteTeam_region k n s))"
  by (auto simp: nonneg_def goalieConstituteTeam_region_def stat_defs claim_teamId_def Let_def)

lemma region_late:
  "2 \<le> goaliesArrived s \<Longrightarrow>
     goalieStat (snd (goalieConstituteTeam_region k n s)) n = LATE \<and> fst (goalieConstituteTeam_region k n s) = None"
  by (simp add: goalieConstituteTeam_region_def stat_defs Let_def)

lemma upt_shift: "map (\<lambda>i. a + int i) [0..<Suc m] = a # map (\<lambda>i. a + 1 + int i) [0..<m]"
proof -
  have "[0..<Suc m] = 0 # map Suc [0..<m]"
    by (simp add: upt_conv_Cons map_Suc_upt del: upt_Suc)
  then show ?thesis by (simp add: comp_def del: upt_Suc)
qed

lemma formation_ids:
  "fst (formation k ns s) = map (\<lambda>i. teamId s + int i) [0..<length (fst (formation k ns s))] \<and>
   teamId (snd (formation k ns s)) = teamId s + int (length (fst (formation k ns s)))"
proof (induction ns arbitrary: s)
  case Nil
  then show ?case by simp
next
  case (Cons n ns)
  obtain r s' where r: "goalieConstituteTeam_region k n s = (r, s')"
    by (cases "goalieConstituteTeam_region k n s")
  obtain ts sf where f: "formation k ns s' = (ts, sf)"
    by (cases "formation k ns s'")
  have ih: "ts = map (\<lambda>i. teamId s' + int i) [0..<length ts] \<and>
            teamId sf = teamId s' + int (length ts)"
    using Cons.IH [of s'] f by simp
  from region_fst_snd [of k n s] r
  have "(r = None \<and> teamId s' = teamId s) \<or> (r = Some (teamId s) \<and> teamId s' = teamId s + 1)"
    by simp
  then show ?case
  proof
    assume "r = None \<and> teamId s' = teamId s"
    then show ?thesis using r f ih by simp
  next
    assume a: "r = Some (teamId s) \<and> teamId s' = teamId s + 1"
    have "teamId s # ts = map (\<lambda>i. teamId s + int i) [0..<Suc (length ts)]"
      using ih a by (simp only: upt_shift)
    then show ?thesis using r f ih a by (simp del: upt_Suc)
  qed
qed

lemma formation_counters:
  "goaliesFree (snd (formation k ns s)) =
     goaliesFree s + int (length ns) - NUMTEAMGOALIES k * int (length (fst (formation k ns s))) \<and>
   playersFree (snd (formation k ns s)) =
     playersFree s - NUMTEAMPLAYERS k * int (length (fst (formation k ns s))) \<and>
   goaliesArrived (snd (formation k ns s)) = goaliesArrived s + int (length ns)"
proof (induction ns arbitrary: s)
  case Nil
  then show ?case by simp
next
  case (Cons n ns)
  obtain r s' where r: "goalieConstituteTeam_region k n s = (r, s')"
    by (cases "goalieConstituteTeam_region k n s")
  obtain ts sf where f: "formation k ns s' = (ts, sf)"
    by (cases "formation k ns s'")
  have ih: "goaliesFree sf = goaliesFree s' + int (length ns) - NUMTEAMGOALIES k * int (length ts) \<and>
            playersFree sf = playersFree s' - NUMTEAMPLAYERS k * int (length ts) \<and>
            goaliesArrived sf = goaliesArrived s' + int (length ns)"
    using Cons.IH [of s'] f by simp
  have st: "goaliesFree s' = goaliesFree s + 1 - (if r = None then 0 else NUMTEAMGOALIES k) \<and>
            playersFree s' = playersFree s - (if r = None then 0 else NUMTEAMPLAYERS k) \<and>
            goaliesArrived s' = goaliesArrived s + 1"
    using region_counters [of k n s] r by simp
  show ?case
  proof (cases r)
    case None
    then show ?thesis using r f ih st by simp
  next
    case (Some t)
    then show ?thesis using r f ih st by (simp add: algebra_simps)
  qed
qed

lemma formation_nonneg: "nonneg s \<Longrightarrow> nonneg (snd (formation k (take m ns) s))"
proof (induction ns arbitrary: s m)
  case Nil
  then show ?case by simp
next
  case (Cons n ns)
  show ?case
  proof (cases m)
    case 0
    then show ?thesis using Cons.prems by simp
  next
    case (Suc j)
    have "nonneg (snd (goalieConstituteTeam_region k n s))"
      using Cons.prems by (rule region_nonneg)
    then have "nonneg (snd (formation k (take j ns) (snd (goalieConstituteTeam_region k n s))))"
      by (rule Cons.IH)
    then show ?thesis using Suc by (simp add: split_beta)
  qed
qed

lemma formation_snoc:
  "formation k (ns @ [n]) s =
     (fst (formation k ns s) @
        (case fst (goalieConstituteTeam_region k n (snd (formation k ns s))) of
           None \<Rightarrow> [] | Some t \<Rightarrow> [t]),
      snd (goalieConstituteTeam_region k n (snd (formation k ns s))))"
proof (induction ns arbitrary: s)
  case Nil
  then show ?case by (simp add: split_beta split: option.split)
next
  case (Cons a ns)
  then show ?case by (simp add: split_beta split: option.split)
qed

lemma formation_claims_le: "length (fst (formation k ns s)) \<le> length ns"
proof (induction ns arbitrary: s)
  case Nil
  then show ?case by simp
next
  case (Cons a ns)
  have "length (fst (formation k ns (snd (goalieConstituteTeam_region k a s)))) \<le> length ns"
    by (rule Cons.IH)
  then show ?case by (simp add: split_beta split: option.split)
qed

text \<open>In the serial view, a goalie that comes after two teams were claimed is late.\<close>

lemma formation_third_late:
  assumes "2 \<le> length (fst (formation k ns s))" and "0 \<le> goaliesArrived s"
  shows "goalieStat (snd (formation k (ns @ [n]) s)) n = LATE \<and>
         fst (formation k (ns @ [n]) s) = fst (formation k ns s)"
proof -
  have "2 \<le> length ns" using assms(1) formation_claims_le [of k ns s] by linarith
  then have "2 \<le> goaliesArrived (snd (formation k ns s))"
    using formation_counters [of k ns s] assms(2) by simp
  then show ?thesis using region_late [of "snd (formation k ns s)" k n]
    by (simp add: formation_snoc)
qed

subsection \<open>Progress under a cooperative schedule\<close>

lemma coop_sched_0: "coop_sched s 0 = []"
  by (simp add: coop_sched_def)

lemma coop_sched_Suc: "coop_sched s (Suc m) = Env s all_open # Go False # coop_sched s m"
  by (simp add: coop_sched_def)

lemma coop_sched_add: "coop_sched s (a + b) = coop_sched s a @ coop_sched s b"
  by (simp add: coop_sched_def replicate_add)

lemmas coop_defs = eval_nat_numeral coop_sched_Suc coop_sched_0 exec_Cons exec_Nil env_step_def
  step_defs stat_defs all_open_def

lemma loop_round:
  assumes "in_loop k n c" and "loop_i c < NUMTEAMPLAYERS k"
  shows "in_loop k n (exec k n (coop_sched s 4) c) \<and>
         loop_i (exec k n (coop_sched s 4) c) = loop_i c + 1"
  using assms by (simp add: in_loop_def coop_defs)

lemma loop_rounds:
  "in_loop k n c \<Longrightarrow> d = nat (NUMTEAMPLAYERS k - loop_i c) \<Longrightarrow>
     in_loop k n (exec k n (coop_sched s (4 * d)) c) \<and>
     loop_i (exec k n (coop_sched s (4 * d)) c) = NUMTEAMPLAYERS k"
proof (induction d arbitrary: c)
  case 0
  then show ?case by (simp add: coop_sched_0 exec_Nil in_loop_def)
next
  case (Suc d)
  have lt: "loop_i c < NUMTEAMPLAYERS k" using Suc.prems by simp
  define c1 where "c1 = exec k n (coop_sched s 4) c"
  have c1: "in_loop k n c1 \<and> loop_i c1 = loop_i c + 1"
    unfolding c1_def using Suc.prems(1) lt by (rule loop_round)
  have d: "d = nat (NUMTEAMPLAYERS k - loop_i c1)" using c1 Suc.prems(2) by simp
  have "4 * Suc d = 4 + 4 * d" by simp
  then have "coop_sched s (4 * Suc d) = coop_sched s 4 @ coop_sched s (4 * d)"
    by (simp only: coop_sched_add)
  then have e: "exec k n (coop_sched s (4 * Suc d)) c = exec k n (coop_sched s (4 * d)) c1"
    by (simp only: exec_append c1_def)
  show ?case unfolding e using c1 d by (intro Suc.IH) simp_all
qed

lemma loop_exit:
  assumes "in_loop k n c" and "loop_i c = NUMTEAMPLAYERS k"
  shows "pc (exec k n (coop_sched s 5) c) = CT_return \<and>
         goalieStat (fSt (exec k n (coop_sched s 5) c)) n = FORMING_TEAM"
  using assms by (simp add: in_loop_def coop_defs)

lemma enter_forming:
  assumes "pc c0 = CT_init" and "\<not> holds c0" and "0 \<le> NUMTEAMPLAYERS k"
    and "goaliesArrived s + 1 \<le> 2" and "NUMTEAMPLAYERS k \<le> playersFree s"
    and "NUMTEAMGOALIES k \<le> goaliesFree s + 1"
  shows "in_loop k n (exec k n (coop_sched s 3) c0) \<and> loop_i (exec k n (coop_sched s 3) c0) = 0"
  using assms by (simp add: in_loop_def coop_defs)

text \<open>
  A goalie that finds both quotas met comes back from \<^verbatim>\<open>goalieConstituteTeam\<close> when no
  system call fails and every player it releases acknowledges.
\<close>

lemma forming_goalie_returns:
  assumes "pc c0 = CT_init" and "\<not> holds c0" and "0 \<le> NUMTEAMPLAYERS k"
    and "goaliesArrived s + 1 \<le> 2" and "NUMTEAMPLAYERS k \<le> playersFree s"
    and "NUMTEAMGOALIES k \<le> goaliesFree s + 1"
  shows "pc (exec k n (coop_sched s (3 + 4 * nat (NUMTEAMPLAYERS k) + 5)) c0) = CT_return \<and>
         goalieStat (fSt (exec k n (coop_sched s (3 + 4 * nat (NUMTEAMPLAYERS k) + 5)) c0)) n
           = FORMING_TEAM"
proof -
  define c1 where "c1 = exec k n (coop_sched s 3) c0"
  define c2 where "c2 = exec k n (coop_sched s (4 * nat (NUMTEAMPLAYERS k))) c1"
  have 1: "in_loop k n c1 \<and> loop_i c1 = 0"
    unfolding c1_def using assms by (rule enter_forming)
  have 2: "in_loop k n c2 \<and> loop_i c2 = NUMTEAMPLAYERS k"
    unfolding c2_def using 1 by (intro loop_rounds) simp_all
  have 3: "pc (exec k n (coop_sched s 5) c2) = CT_return \<and>
           goalieStat (fSt (exec k n (coop_sched s 5) c2)) n = FORMING_TEAM"
    using 2 by (intro loop_exit) simp_all
  have "exec k n (coop_sched s (3 + 4 * nat (NUMTEAMPLAYERS k) + 5)) c0 =
        exec k n (coop_sched s 5) c2"
    by (simp only: coop_sched_add exec_append c1_def c2_def)
  then show ?thesis using 3 by simp
qed

text \<open>A goalie that has to wait comes back with the team counter it reads after the wake-up.\<close>

lemma waiting_goalie_returns:
  assumes "pc c0 = CT_init" and "\<not> holds c0" and "goaliesArrived s + 1 \<le> 2"
    and "playersFree s < NUMTEAMPLAYERS k \<or> goaliesFree s + 1 < NUMTEAMGOALIES k"
  shows "pc (exec k n (coop_sched s 8) c0) = CT_return \<and>
         ret (exec k n (coop_sched s 8) c0) = teamId s \<and>
         goalieStat (fSt (exec k n (coop_sched s 8) c0)) n = WAITING_TEAM"
  using assms by (auto simp add: coop_defs)

text \<open>A goalie that finds two goalies before it runs to the end of \<^verbatim>\<open>main\<close>.\<close>

lemma late_goalie_finishes:
  assumes "pc c0 = Arrive_lock" and "\<not> holds c0" and "2 \<le> goaliesArrived s"
  shows "pc (exec k n (coop_sched s 11) c0) = Done \<and>
         goalieStat (fSt (exec k n (coop_sched s 11) c0)) n = LATE"
  using assms by (simp add: coop_defs)

section \<open>The claims\<close>

subsection \<open>C1: when a goalie is late\<close>

text \<open>
  C1, as amended. A goalie that has entered \<^verbatim>\<open>goalieConstituteTeam\<close> makes its check at
  line 186 with the mutex held. It is marked \<open>LATE\<close> exactly when \<open>goaliesArrived\<close>, after
  its own increment, is greater than the constant 2 of line 186. In that case \<^verbatim>\<open>ret\<close> is 0,
  the next statement is the release of the mutex, the free players and the team counter
  are untouched, and the goalie returns 0 having done nothing but take and release the
  mutex. Otherwise the quota check of line 188 decides between \<open>WAITING_TEAM\<close> and
  \<open>FORMING_TEAM\<close>. The threshold is twice the goalie quota when that quota is 1.
\<close>

theorem late_iff_third_arrival:
  assumes "pc c0 = CT_init" and "\<not> holds c0"
  shows "let c = exec k n sched c0; c' = gstep k n f c; arrived = goaliesArrived (fSt c) + 1 in
           (pc c = CT_cs \<longrightarrow>
              holds c \<and> goaliesArrived (fSt c') = arrived \<and>
              (goalieStat (fSt c') n = LATE \<longleftrightarrow> 2 < arrived) \<and>
              (2 < arrived \<longrightarrow>
                 ret c' = 0 \<and> pc c' = CT_unlock \<and> trace c' = trace c \<and>
                 playersFree (fSt c') = playersFree (fSt c) \<and> teamId (fSt c') = teamId (fSt c)) \<and>
              (\<not> 2 < arrived \<longrightarrow>
                 goalieStat (fSt c') n =
                   (if playersFree (fSt c) < NUMTEAMPLAYERS k \<or>
                       goaliesFree (fSt c) + 1 < NUMTEAMGOALIES k
                    then WAITING_TEAM else FORMING_TEAM)) \<and>
              (NUMTEAMGOALIES k = 1 \<longrightarrow>
                 (goalieStat (fSt c') n = LATE \<longleftrightarrow> 2 * NUMTEAMGOALIES k < arrived))) \<and>
           (pc c = CT_return \<and> goalieStat (fSt c) n = LATE \<longrightarrow>
              ret c = 0 \<and> trace c = trace c0 @ [Down mutex, Up mutex])"
proof -
  define c where "c = exec k n sched c0"
  have cs: "cs_inv c"
    unfolding c_def using assms by (intro cs_inv_exec cs_inv_ct_start)
  have inv: "ct_inv k n (trace c0) c"
    unfolding c_def using assms by (intro ct_inv_exec ct_inv_start)
  have 1: "pc c = CT_cs \<longrightarrow>
              holds c \<and> goaliesArrived (fSt (gstep k n f c)) = goaliesArrived (fSt c) + 1 \<and>
              (goalieStat (fSt (gstep k n f c)) n = LATE \<longleftrightarrow> 2 < goaliesArrived (fSt c) + 1) \<and>
              (2 < goaliesArrived (fSt c) + 1 \<longrightarrow>
                 ret (gstep k n f c) = 0 \<and> pc (gstep k n f c) = CT_unlock \<and>
                 trace (gstep k n f c) = trace c \<and>
                 playersFree (fSt (gstep k n f c)) = playersFree (fSt c) \<and>
                 teamId (fSt (gstep k n f c)) = teamId (fSt c)) \<and>
              (\<not> 2 < goaliesArrived (fSt c) + 1 \<longrightarrow>
                 goalieStat (fSt (gstep k n f c)) n =
                   (if playersFree (fSt c) < NUMTEAMPLAYERS k \<or>
                       goaliesFree (fSt c) + 1 < NUMTEAMGOALIES k
                    then WAITING_TEAM else FORMING_TEAM)) \<and>
              (NUMTEAMGOALIES k = 1 \<longrightarrow>
                 (goalieStat (fSt (gstep k n f c)) n = LATE
                    \<longleftrightarrow> 2 * NUMTEAMGOALIES k < goaliesArrived (fSt c) + 1))"
    using cs by (auto simp: cs_inv_def step_defs stat_defs)
  have 2: "pc c = CT_return \<and> goalieStat (fSt c) n = LATE \<longrightarrow>
              ret c = 0 \<and> trace c = trace c0 @ [Down mutex, Up mutex]"
    using inv by (auto simp: ct_inv_def Let_def)
  show ?thesis using 1 2 unfolding c_def [symmetric] Let_def by blast
qed

text \<open>
  With a quota of two goalies per team, the third goalie to arrive is marked \<open>LATE\<close> although
  3 does not exceed twice the quota. With a quota of one and no free player, the third
  goalie is marked \<open>LATE\<close> although no team has been claimed.
\<close>

theorem late_threshold_counterexample:
  "pc (third_goalie_check big_goalie_quota) = CT_cs \<and>
   holds (third_goalie_check big_goalie_quota) \<and>
   goalieStat (fSt (gstep big_goalie_quota 0 False (third_goalie_check big_goalie_quota))) 0 = LATE \<and>
   \<not> 2 * NUMTEAMGOALIES big_goalie_quota
       < goaliesArrived (fSt (gstep big_goalie_quota 0 False (third_goalie_check big_goalie_quota))) \<and>
   fst (formation small_game [0, 1, 2] empty_region) = [] \<and>
   goalieStat (snd (formation small_game [0, 1, 2] empty_region)) 2 = LATE"
  by (simp add: sample_defs run_defs goalieConstituteTeam_region_def)

theorem late_iff_third_arrival_witness:
  "pc (start_conf CT_init two_goalies_arrived only_mutex) = CT_init \<and>
   \<not> holds (start_conf CT_init two_goalies_arrived only_mutex) \<and>
   pc (third_goalie_check small_game) = CT_cs \<and>
   holds (third_goalie_check small_game) \<and>
   goalieStat (fSt (gstep small_game 0 False (third_goalie_check small_game))) 0 = LATE \<and>
   ret (gstep small_game 0 False (third_goalie_check small_game)) = 0 \<and>
   pc (gstep small_game 0 False (third_goalie_check small_game)) = CT_unlock"
  using late_iff_third_arrival [of "start_conf CT_init two_goalies_arrived only_mutex"
          small_game 0 ct_enter_sched False]
  by (simp add: sample_defs run_defs)

subsection \<open>C2: channel waits and the mutex\<close>




subsection \<open>C3: the value returned\<close>




subsection \<open>C4: the team ids claimed\<close>

text \<open>
  C4, as amended. Goalies pass through the mutex-protected region one after the other,
  starting with the team counter at \<open>teamId s\<close>. The ids claimed by those that form a team
  are, in order, \<open>teamId s\<close>, \<open>teamId s + 1\<close>, ... up to \<open>teamId s + j - 1\<close> for \<open>j\<close> teams:
  consecutive, strictly increasing, none reused, none skipped; and the counter ends \<open>j\<close>
  higher. In the machine, the statement of line 213 is the only step of the goalie that
  changes the counter: it raises it by one and puts the old value in \<^verbatim>\<open>ret\<close>.
\<close>

theorem team_ids_consecutive:
  "(let claimed = fst (formation k ns s); final = snd (formation k ns s) in
      claimed = map (\<lambda>i. teamId s + int i) [0..<length claimed] \<and>
      teamId final = teamId s + int (length claimed)) \<and>
   teamId (fSt (gstep k n f c)) = (if pc c = CT_claim then teamId (fSt c) + 1 else teamId (fSt c)) \<and>
   (pc c = CT_claim \<longrightarrow> ret (gstep k n f c) = teamId (fSt c))"
proof -
  have "teamId (fSt (gstep k n f c)) =
          (if pc c = CT_claim then teamId (fSt c) + 1 else teamId (fSt c))"
    by (cases "pc c") (simp_all add: step_defs stat_defs)
  moreover have "pc c = CT_claim \<longrightarrow> ret (gstep k n f c) = teamId (fSt c)"
    by (simp add: step_defs)
  ultimately show ?thesis using formation_ids [of k ns s] by (simp add: Let_def)
qed

text \<open>
  With the counter at 1, as the comment of \<^verbatim>\<open>goalieConstituteTeam\<close> has it, and four free
  players, goalies 0 and 1 claim the ids 1 and 2, not 0 and 1.
\<close>

theorem team_ids_from_zero_counterexample:
  "fst (formation small_game [0, 1] four_players_free) = [1, 2] \<and>
   fst (formation small_game [0, 1] four_players_free) \<noteq> [0, 1]"
  by (simp add: sample_defs goalieConstituteTeam_region_def stat_defs claim_teamId_def Let_def)

theorem team_ids_consecutive_witness:
  "fst (formation small_game [0, 1] four_players_free) = [1, 2] \<and>
   teamId (snd (formation small_game [0, 1] four_players_free)) = 3 \<and>
   pc (start_conf CT_claim empty_region only_mutex) = CT_claim \<and>
   ret (gstep small_game 0 False (start_conf CT_claim empty_region only_mutex)) = 1 \<and>
   teamId (fSt (gstep small_game 0 False (start_conf CT_claim empty_region only_mutex))) = 2"
  using team_ids_consecutive [of small_game "[0, 1]" four_players_free 0 False
          "start_conf CT_claim empty_region only_mutex"]
  by (simp add: sample_defs goalieConstituteTeam_region_def stat_defs claim_teamId_def Let_def)

subsection \<open>C5: the goalie that waits\<close>

text \<open>
  C5, as amended. A goalie that is not late and whose quota check fails is marked
  \<open>WAITING_TEAM\<close> and goes to the release of the mutex. After the release it reads its own
  status entry again and, finding \<open>WAITING_TEAM\<close>, waits on \<open>goaliesWaitTeam\<close> without the
  mutex. Once released it reads the shared team counter, still without the mutex, and
  returns the value it finds there at that moment; it changes nothing in the shared data
  by that; then it signals \<open>playerRegistered\<close> once. Its events in the function are exactly
  these five. When no call fails and it is woken, it comes back with the counter that the
  other processes left.
\<close>

theorem waiting_goalie_reads_teamId:
  assumes "pc c0 = CT_init" and "\<not> holds c0"
  shows "(let c = exec k n sched c0; c' = gstep k n f c in
           (pc c = CT_cs \<and> goaliesArrived (fSt c) + 1 \<le> 2 \<and>
              (playersFree (fSt c) < NUMTEAMPLAYERS k \<or> goaliesFree (fSt c) + 1 < NUMTEAMGOALIES k)
              \<longrightarrow> goalieStat (fSt c') n = WAITING_TEAM \<and> pc c' = CT_unlock) \<and>
           (pc c = CT_recheck \<longrightarrow>
              \<not> holds c \<and>
              pc c' = (if goalieStat (fSt c) n = WAITING_TEAM then CT_down_wait else CT_return)) \<and>
           (pc c = CT_down_wait \<longrightarrow> \<not> holds c \<and> goalieStat (fSt c) n = WAITING_TEAM) \<and>
           (pc c = CT_read \<longrightarrow> \<not> holds c \<and> ret c' = teamId (fSt c) \<and> fSt c' = fSt c) \<and>
           (pc c = CT_return \<and> goalieStat (fSt c) n = WAITING_TEAM \<longrightarrow>
              trace c = trace c0 @ [Down mutex, Up mutex, Down goaliesWaitTeam,
                                    ReadTeam (ret c), Up playerRegistered])) \<and>
         (goaliesArrived s + 1 \<le> 2 \<and>
            (playersFree s < NUMTEAMPLAYERS k \<or> goaliesFree s + 1 < NUMTEAMGOALIES k) \<longrightarrow>
            pc (exec k n (coop_sched s 8) c0) = CT_return \<and>
            ret (exec k n (coop_sched s 8) c0) = teamId s)"
proof -
  define c where "c = exec k n sched c0"
  have inv: "ct_inv k n (trace c0) c"
    unfolding c_def using assms by (intro ct_inv_exec ct_inv_start)
  have cs: "cs_inv c"
    unfolding c_def using assms by (intro cs_inv_exec cs_inv_ct_start)
  have 1: "pc c = CT_cs \<and> goaliesArrived (fSt c) + 1 \<le> 2 \<and>
              (playersFree (fSt c) < NUMTEAMPLAYERS k \<or> goaliesFree (fSt c) + 1 < NUMTEAMGOALIES k)
              \<longrightarrow> goalieStat (fSt (gstep k n f c)) n = WAITING_TEAM \<and> pc (gstep k n f c) = CT_unlock"
    by (auto simp: step_defs stat_defs)
  have 2: "pc c = CT_recheck \<longrightarrow>
              \<not> holds c \<and>
              pc (gstep k n f c) =
                (if goalieStat (fSt c) n = WAITING_TEAM then CT_down_wait else CT_return)"
    using cs by (auto simp: cs_inv_def step_defs)
  have 3: "pc c = CT_down_wait \<longrightarrow> \<not> holds c \<and> goalieStat (fSt c) n = WAITING_TEAM"
    using inv cs by (auto simp: ct_inv_def cs_inv_def Let_def)
  have 4: "pc c = CT_read \<longrightarrow>
              \<not> holds c \<and> ret (gstep k n f c) = teamId (fSt c) \<and> fSt (gstep k n f c) = fSt c"
    using cs by (auto simp: cs_inv_def step_defs)
  have 5: "pc c = CT_return \<and> goalieStat (fSt c) n = WAITING_TEAM \<longrightarrow>
              trace c = trace c0 @ [Down mutex, Up mutex, Down goaliesWaitTeam,
                                    ReadTeam (ret c), Up playerRegistered]"
    using inv by (auto simp: ct_inv_def Let_def)
  have 6: "goaliesArrived s + 1 \<le> 2 \<and>
            (playersFree s < NUMTEAMPLAYERS k \<or> goaliesFree s + 1 < NUMTEAMGOALIES k) \<longrightarrow>
            pc (exec k n (coop_sched s 8) c0) = CT_return \<and>
            ret (exec k n (coop_sched s 8) c0) = teamId s"
    using waiting_goalie_returns [of c0 s k n] assms by blast
  show ?thesis using 1 2 3 4 5 6 unfolding c_def [symmetric] Let_def by blast
qed

text \<open>
  Two runs of goalie 0 that agree on everything up to and including the release of the
  mutex. Before the goalie is woken, the other processes leave 7 in the team counter in
  one run and 9 in the other. The goalie returns 7 and 9: the value is the one it reads
  from the shared counter after it has released the mutex.
\<close>

theorem waiting_goalie_reread_counterexample:
  "pc (waiting_run 7) = CT_return \<and> pc (waiting_run 9) = CT_return \<and>
   ret (waiting_run 7) = 7 \<and> ret (waiting_run 9) = 9 \<and>
   ret (waiting_run 7) \<noteq> ret (waiting_run 9)"
  by (simp add: sample_defs run_defs)

theorem waiting_goalie_reads_teamId_witness:
  "pc (start_conf CT_init empty_region only_mutex) = CT_init \<and>
   \<not> holds (start_conf CT_init empty_region only_mutex) \<and>
   pc (waiting_run 7) = CT_return \<and>
   goalieStat (fSt (waiting_run 7)) 0 = WAITING_TEAM \<and>
   trace (waiting_run 7) =
     [Down mutex, Up mutex, Down goaliesWaitTeam, ReadTeam 7, Up playerRegistered] \<and>
   ret (exec small_game 0 (coop_sched empty_region 8) (start_conf CT_init empty_region only_mutex))
     = 1"
  using waiting_goalie_reads_teamId [of "start_conf CT_init empty_region only_mutex"
          small_game 0 "ct_waiting_sched 7" False empty_region]
  by (simp add: sample_defs run_defs)

subsection \<open>C6: the goalie that forms the team\<close>

text \<open>
  C6. When a goalie that took the \<open>FORMING_TEAM\<close> branch is about to return from
  \<^verbatim>\<open>goalieConstituteTeam\<close>, its events in the function are: the mutex taken; then
  \<open>NUMTEAMPLAYERS\<close> times a signal on \<open>playersWaitTeam\<close> followed by a wait on
  \<open>playerRegistered\<close>; then the claim of the team id that it returns; then one signal on
  \<open>refereeWaitTeams\<close>; then the mutex released. The claim is the post-increment of the
  shared counter. When both quotas are met, no call fails and every player acknowledges,
  the goalie does come back from the function on this branch.
\<close>

theorem forming_goalie_handshake:
  assumes "pc c0 = CT_init" and "\<not> holds c0"
  shows "(let c = exec k n sched c0 in
           (pc c = CT_return \<and> goalieStat (fSt c) n = FORMING_TEAM \<longrightarrow>
              trace c = trace c0 @ Down mutex # handshakes (nat (NUMTEAMPLAYERS k)) @
                          [Claim (ret c), Up refereeWaitTeams, Up mutex]) \<and>
           (pc c = CT_claim \<longrightarrow>
              ret (gstep k n f c) = teamId (fSt c) \<and>
              teamId (fSt (gstep k n f c)) = teamId (fSt c) + 1 \<and>
              trace (gstep k n f c) = trace c @ [Claim (teamId (fSt c))] \<and>
              pc (gstep k n f c) = CT_up_referee)) \<and>
         (0 \<le> NUMTEAMPLAYERS k \<and> goaliesArrived s + 1 \<le> 2 \<and>
          NUMTEAMPLAYERS k \<le> playersFree s \<and> NUMTEAMGOALIES k \<le> goaliesFree s + 1 \<longrightarrow>
            pc (exec k n (coop_sched s (3 + 4 * nat (NUMTEAMPLAYERS k) + 5)) c0) = CT_return \<and>
            goalieStat (fSt (exec k n (coop_sched s (3 + 4 * nat (NUMTEAMPLAYERS k) + 5)) c0)) n
              = FORMING_TEAM)"
proof -
  define c where "c = exec k n sched c0"
  have inv: "ct_inv k n (trace c0) c"
    unfolding c_def using assms by (intro ct_inv_exec ct_inv_start)
  have 1: "pc c = CT_return \<and> goalieStat (fSt c) n = FORMING_TEAM \<longrightarrow>
              trace c = trace c0 @ Down mutex # handshakes (nat (NUMTEAMPLAYERS k)) @
                          [Claim (ret c), Up refereeWaitTeams, Up mutex]"
    using inv by (auto simp: ct_inv_def Let_def)
  have 2: "pc c = CT_claim \<longrightarrow>
              ret (gstep k n f c) = teamId (fSt c) \<and>
              teamId (fSt (gstep k n f c)) = teamId (fSt c) + 1 \<and>
              trace (gstep k n f c) = trace c @ [Claim (teamId (fSt c))] \<and>
              pc (gstep k n f c) = CT_up_referee"
    by (simp add: step_defs)
  have 3: "0 \<le> NUMTEAMPLAYERS k \<and> goaliesArrived s + 1 \<le> 2 \<and>
          NUMTEAMPLAYERS k \<le> playersFree s \<and> NUMTEAMGOALIES k \<le> goaliesFree s + 1 \<longrightarrow>
            pc (exec k n (coop_sched s (3 + 4 * nat (NUMTEAMPLAYERS k) + 5)) c0) = CT_return \<and>
            goalieStat (fSt (exec k n (coop_sched s (3 + 4 * nat (NUMTEAMPLAYERS k) + 5)) c0)) n
              = FORMING_TEAM"
    using forming_goalie_returns [of c0 k s n] assms by blast
  show ?thesis using 1 2 3 unfolding c_def [symmetric] Let_def by blast
qed

theorem forming_goalie_handshake_witness:
  "pc (start_conf CT_init two_players_free only_mutex) = CT_init \<and>
   \<not> holds (start_conf CT_init two_players_free only_mutex) \<and>
   pc (exec small_game 0 ct_forming_sched (start_conf CT_init two_players_free only_mutex))
     = CT_return \<and>
   goalieStat (fSt (exec small_game 0 ct_forming_sched
                      (start_conf CT_init two_players_free only_mutex))) 0 = FORMING_TEAM \<and>
   trace (exec small_game 0 ct_forming_sched (start_conf CT_init two_players_free only_mutex)) =
     [Down mutex, Up playersWaitTeam, Down playerRegistered, Up playersWaitTeam,
      Down playerRegistered, Claim 1, Up refereeWaitTeams, Up mutex] \<and>
   pc (exec small_game 0 (coop_sched two_players_free 16)
         (start_conf CT_init two_players_free only_mutex)) = CT_return"
  using forming_goalie_handshake [of "start_conf CT_init two_players_free only_mutex"
          small_game 0 ct_forming_sched False two_players_free]
  by (simp add: sample_defs run_defs)

subsection \<open>C7: who decreases the free counters\<close>

text \<open>
  C7. Take any step of the goalie, anywhere in a run from the start of \<^verbatim>\<open>arrive\<close>. If the
  step is the block of line 183 and, after the goalie has counted itself, it finds
  \<open>goaliesArrived \<le> 2\<close>, \<open>playersFree \<ge> NUMTEAMPLAYERS\<close> and
  \<open>goaliesFree \<ge> NUMTEAMGOALIES\<close>, then it holds the mutex and takes exactly
  \<open>NUMTEAMPLAYERS\<close> from \<open>playersFree\<close> and exactly \<open>NUMTEAMGOALIES\<close> from the
  \<open>goaliesFree\<close> it has just checked. Every other step leaves \<open>playersFree\<close> as it is and
  does not lower \<open>goaliesFree\<close>.
\<close>

theorem free_counters_decrease_by_quota:
  assumes "pc c0 = Arrive_lock" and "\<not> holds c0"
  shows "let c = exec k n sched c0; c' = gstep k n f c; s1 = register_goalie (fSt c) in
           if pc c = CT_cs \<and> goaliesArrived s1 \<le> 2 \<and>
              NUMTEAMPLAYERS k \<le> playersFree s1 \<and> NUMTEAMGOALIES k \<le> goaliesFree s1
           then holds c \<and>
                playersFree (fSt c') = playersFree s1 - NUMTEAMPLAYERS k \<and>
                goaliesFree (fSt c') = goaliesFree s1 - NUMTEAMGOALIES k
           else playersFree (fSt c') = playersFree (fSt c) \<and>
                goaliesFree (fSt c) \<le> goaliesFree (fSt c')"
proof -
  define c where "c = exec k n sched c0"
  have inv: "cs_inv c"
    unfolding c_def using assms by (intro cs_inv_exec cs_inv_start)
  have "if pc c = CT_cs \<and> goaliesArrived (register_goalie (fSt c)) \<le> 2 \<and>
           NUMTEAMPLAYERS k \<le> playersFree (register_goalie (fSt c)) \<and>
           NUMTEAMGOALIES k \<le> goaliesFree (register_goalie (fSt c))
        then holds c \<and>
             playersFree (fSt (gstep k n f c)) =
               playersFree (register_goalie (fSt c)) - NUMTEAMPLAYERS k \<and>
             goaliesFree (fSt (gstep k n f c)) =
               goaliesFree (register_goalie (fSt c)) - NUMTEAMGOALIES k
        else playersFree (fSt (gstep k n f c)) = playersFree (fSt c) \<and>
             goaliesFree (fSt c) \<le> goaliesFree (fSt (gstep k n f c))"
    using inv by (cases "pc c") (auto simp: cs_inv_def step_defs stat_defs)
  then show ?thesis unfolding c_def [symmetric] Let_def .
qed

theorem free_counters_decrease_by_quota_witness:
  "pc (start_conf Arrive_lock two_players_free only_mutex) = Arrive_lock \<and>
   \<not> holds (start_conf Arrive_lock two_players_free only_mutex) \<and>
   pc (exec small_game 0 enter_sched (start_conf Arrive_lock two_players_free only_mutex)) = CT_cs \<and>
   holds (exec small_game 0 enter_sched (start_conf Arrive_lock two_players_free only_mutex)) \<and>
   playersFree (fSt (gstep small_game 0 False
      (exec small_game 0 enter_sched (start_conf Arrive_lock two_players_free only_mutex)))) = 0 \<and>
   goaliesFree (fSt (gstep small_game 0 False
      (exec small_game 0 enter_sched (start_conf Arrive_lock two_players_free only_mutex)))) = 0"
  using free_counters_decrease_by_quota [of "start_conf Arrive_lock two_players_free only_mutex"
          small_game 0 enter_sched False]
  by (simp add: sample_defs run_defs)

subsection \<open>C8: conservation of the free counters\<close>

text \<open>
  C8. After the goalies \<open>ns\<close> have passed through the mutex-protected region, with \<open>j\<close> teams
  formed among them: \<open>goaliesFree\<close> is its value before, plus one for every goalie that
  passed (late ones included), minus \<open>NUMTEAMGOALIES\<close> times \<open>j\<close>; \<open>playersFree\<close> is its
  value before minus \<open>NUMTEAMPLAYERS\<close> times \<open>j\<close>. If both counters start non-negative,
  they are non-negative after every goalie of the sequence. In the machine, with other
  processes that leave non-negative counters, both counters are non-negative at every
  point of every run of a goalie.
\<close>

theorem free_counters_conservation:
  "(let teams = int (length (fst (formation k ns s))); final = snd (formation k ns s) in
      goaliesFree final = (goaliesFree s + int (length ns)) - NUMTEAMGOALIES k * teams \<and>
      playersFree final = playersFree s - NUMTEAMPLAYERS k * teams) \<and>
   (nonneg s \<longrightarrow> (\<forall>m. nonneg (snd (formation k (take m ns) s)))) \<and>
   (nonneg (fSt c0) \<and> list_all nonneg_item sched \<longrightarrow> nonneg (fSt (exec k n sched c0)))"
  using formation_counters [of k ns s] formation_nonneg [of s k _ ns]
    nonneg_exec [of c0 sched k n]
  by (simp add: Let_def)

theorem free_counters_conservation_witness:
  "nonneg four_players_free \<and>
   goaliesFree (snd (formation small_game [0, 1, 2] four_players_free)) = 1 \<and>
   playersFree (snd (formation small_game [0, 1, 2] four_players_free)) = 0 \<and>
   length (fst (formation small_game [0, 1, 2] four_players_free)) = 2 \<and>
   nonneg (snd (formation small_game (take 2 [0, 1, 2]) four_players_free)) \<and>
   list_all nonneg_item ct_forming_sched \<and>
   nonneg (fSt (exec small_game 0 ct_forming_sched
                  (start_conf CT_init four_players_free only_mutex)))"
  using free_counters_conservation [of small_game "[0, 1, 2]" four_players_free
          "start_conf CT_init four_players_free only_mutex" ct_forming_sched 0]
  by (simp add: sample_defs nonneg_def goalieConstituteTeam_region_def stat_defs claim_teamId_def Let_def)

subsection \<open>C9: the late goalie takes no further part\<close>

text \<open>
  C9. A goalie starts \<^verbatim>\<open>arrive\<close> when two goalies have already arrived, as is the case
  once both teams are claimed: each team has taken a goalie that arrived before. In every
  run: the statuses it logs are \<open>ARRIVING\<close> and then \<open>LATE\<close>, the block of line 183 takes it
  from \<open>ARRIVING\<close> to \<open>LATE\<close> in one step; the only events it ever performs are taking and
  releasing the mutex, twice, so it never operates on \<open>goaliesWaitTeam\<close>,
  \<open>playersWaitReferee\<close>, \<open>playersWaitEnd\<close> or any other channel; it can be suspended only on
  the mutex, and only before its check; it is never inside \<^verbatim>\<open>waitReferee\<close> or
  \<^verbatim>\<open>playUntilEnd\<close>; it ends with \<^verbatim>\<open>team = 0\<close>. When no call fails it reaches the end of
  \<^verbatim>\<open>main\<close>. In the serial view, a goalie that passes after two teams were claimed is
  \<open>LATE\<close> and claims nothing.
\<close>

theorem late_goalie_leaves:
  assumes "pc c0 = Arrive_lock" and "\<not> holds c0" and "trace c0 = []" and "logf c0 = []"
    and "2 \<le> goaliesArrived (fSt c0)" and "list_all late_item sched"
  shows "(let c = exec k n sched c0; lg = map (\<lambda>s. goalieStat s n) (logf c) in
           take (length (trace c)) late_trace = trace c \<and>
           take (length lg) [ARRIVING, LATE] = lg \<and>
           pc c \<in> {Arrive_lock, Arrive_cs, Arrive_unlock, Arrive_sleep, CT_init, CT_lock, CT_cs,
                    CT_unlock, CT_recheck, CT_return, Main_detach, Done, Failed} \<and>
           (suspended k n c \<longrightarrow> pc c \<in> {Arrive_lock, CT_lock}) \<and>
           (pc c = CT_cs \<longrightarrow> goalieStat (fSt c) n = ARRIVING \<and>
                               goalieStat (fSt (gstep k n f c)) n = LATE) \<and>
           (pc c = Done \<longrightarrow> goalieStat (fSt c) n = LATE \<and> team c = 0)) \<and>
         (2 \<le> goaliesArrived s \<longrightarrow>
            pc (exec k n (coop_sched s 11) c0) = Done \<and>
            goalieStat (fSt (exec k n (coop_sched s 11) c0)) n = LATE) \<and>
         (2 \<le> length (fst (formation k ms r)) \<and> 0 \<le> goaliesArrived r \<longrightarrow>
            goalieStat (snd (formation k (ms @ [n]) r)) n = LATE \<and>
            fst (formation k (ms @ [n]) r) = fst (formation k ms r))"
proof -
  define c where "c = exec k n sched c0"
  have inv: "late_inv n c"
    unfolding c_def using assms by (intro late_inv_exec late_inv_start)
  have 1: "take (length (trace c)) late_trace = trace c \<and>
           take (length (map (\<lambda>s. goalieStat s n) (logf c))) [ARRIVING, LATE] =
             map (\<lambda>s. goalieStat s n) (logf c) \<and>
           pc c \<in> {Arrive_lock, Arrive_cs, Arrive_unlock, Arrive_sleep, CT_init, CT_lock, CT_cs,
                    CT_unlock, CT_recheck, CT_return, Main_detach, Done, Failed}"
    using inv by (cases "pc c") (simp_all add: late_inv_def late_trace_def Let_def)
  have 2: "suspended k n c \<longrightarrow> pc c \<in> {Arrive_lock, CT_lock}"
    using inv suspended_cases [of k n c] by (cases "pc c") (auto simp: late_inv_def Let_def)
  have 3: "pc c = CT_cs \<longrightarrow> goalieStat (fSt c) n = ARRIVING \<and>
                               goalieStat (fSt (gstep k n f c)) n = LATE"
    using inv by (auto simp: late_inv_def Let_def step_defs stat_defs)
  have 4: "pc c = Done \<longrightarrow> goalieStat (fSt c) n = LATE \<and> team c = 0"
    using inv by (auto simp: late_inv_def Let_def)
  have 5: "2 \<le> goaliesArrived s \<longrightarrow>
            pc (exec k n (coop_sched s 11) c0) = Done \<and>
            goalieStat (fSt (exec k n (coop_sched s 11) c0)) n = LATE"
    using late_goalie_finishes [of c0 s k n] assms(1,2) by blast
  have 6: "2 \<le> length (fst (formation k ms r)) \<and> 0 \<le> goaliesArrived r \<longrightarrow>
            goalieStat (snd (formation k (ms @ [n]) r)) n = LATE \<and>
            fst (formation k (ms @ [n]) r) = fst (formation k ms r)"
    using formation_third_late [of k ms r n] by blast
  show ?thesis using 1 2 3 4 5 6 unfolding c_def [symmetric] Let_def by blast
qed

theorem late_goalie_leaves_witness:
  "pc (start_conf Arrive_lock two_goalies_arrived only_mutex) = Arrive_lock \<and>
   \<not> holds (start_conf Arrive_lock two_goalies_arrived only_mutex) \<and>
   trace (start_conf Arrive_lock two_goalies_arrived only_mutex) = [] \<and>
   logf (start_conf Arrive_lock two_goalies_arrived only_mutex) = [] \<and>
   2 \<le> goaliesArrived (fSt (start_conf Arrive_lock two_goalies_arrived only_mutex)) \<and>
   list_all late_item late_sched \<and>
   pc (exec small_game 2 late_sched (start_conf Arrive_lock two_goalies_arrived only_mutex)) = Done \<and>
   goalieStat (fSt (exec small_game 2 late_sched
                      (start_conf Arrive_lock two_goalies_arrived only_mutex))) 2 = LATE \<and>
   team (exec small_game 2 late_sched (start_conf Arrive_lock two_goalies_arrived only_mutex)) = 0 \<and>
   trace (exec small_game 2 late_sched (start_conf Arrive_lock two_goalies_arrived only_mutex))
     = late_trace \<and>
   pc (exec small_game 2 (coop_sched two_goalies_arrived 11)
         (start_conf Arrive_lock two_goalies_arrived only_mutex)) = Done \<and>
   length (fst (formation small_game [0, 1] four_players_free)) = 2 \<and>
   goalieStat (snd (formation small_game ([0, 1] @ [2]) four_players_free)) 2 = LATE"
  using late_goalie_leaves [of "start_conf Arrive_lock two_goalies_arrived only_mutex"
          late_sched small_game 2 False two_goalies_arrived "[0, 1]" four_players_free]
  by (simp add: sample_defs run_defs late_trace_def goalieConstituteTeam_region_def)

subsection \<open>C10: the frame of waitReferee and playUntilEnd\<close>

text \<open>
  C10. Every step of the goalie inside \<^verbatim>\<open>waitReferee\<close> or \<^verbatim>\<open>playUntilEnd\<close> leaves the
  shared data as it is, except the two assignments of lines 268 and 308, which write the
  goalie's own status entry and nothing else: \<open>WAITING_START_1\<close> or \<open>PLAYING_1\<close> when
  \<^verbatim>\<open>team\<close> is 1, \<open>WAITING_START_2\<close> or \<open>PLAYING_2\<close> otherwise. The four counters, the team
  counter, the player statuses and the status of every other goalie keep their values.
\<close>

theorem waitReferee_playUntilEnd_frame:
  assumes "pc c \<in> {WR_lock, WR_cs, WR_unlock, WR_down, WR_up, PE_lock, PE_cs, PE_unlock, PE_down}"
  shows "fSt (gstep k n f c) =
           (if pc c = WR_cs
            then (fSt c)\<lparr>goalieStat := (goalieStat (fSt c))
                    (n := if team c = 1 then WAITING_START_1 else WAITING_START_2)\<rparr>
            else if pc c = PE_cs
            then (fSt c)\<lparr>goalieStat := (goalieStat (fSt c))
                    (n := if team c = 1 then PLAYING_1 else PLAYING_2)\<rparr>
            else fSt c) \<and>
         goaliesArrived (fSt (gstep k n f c)) = goaliesArrived (fSt c) \<and>
         goaliesFree (fSt (gstep k n f c)) = goaliesFree (fSt c) \<and>
         playersArrived (fSt (gstep k n f c)) = playersArrived (fSt c) \<and>
         playersFree (fSt (gstep k n f c)) = playersFree (fSt c) \<and>
         teamId (fSt (gstep k n f c)) = teamId (fSt c) \<and>
         playerStat (fSt (gstep k n f c)) = playerStat (fSt c) \<and>
         (\<forall>m. m \<noteq> n \<longrightarrow> goalieStat (fSt (gstep k n f c)) m = goalieStat (fSt c) m)"
  using assms by (auto simp: step_defs stat_defs)

theorem waitReferee_playUntilEnd_frame_witness:
  "pc (start_conf WR_cs empty_region only_mutex) = WR_cs \<and>
   fSt (gstep small_game 0 False (start_conf WR_cs empty_region only_mutex)) =
     empty_region\<lparr>goalieStat := (goalieStat empty_region)(0 := WAITING_START_2)\<rparr> \<and>
   goalieStat (fSt (gstep small_game 0 False (start_conf WR_cs empty_region only_mutex))) 1 =
     goalieStat empty_region 1"
  using waitReferee_playUntilEnd_frame [of "start_conf WR_cs empty_region only_mutex"
          small_game 0 False]
  by (simp add: sample_defs)

end
